theory Spec2Isabelle
  imports Complex_Main "HOL-Library.Multiset" "HOL-Library.Sublist"
begin

section \<open>Strings\<close>

text \<open>
  Python strings are modelled as lists of 8-bit characters and read as ASCII text.
  On the ASCII range \<open>str.lower\<close> maps \<open>A..Z\<close> to \<open>a..z\<close> and leaves every other
  character alone; \<open>str.isspace\<close> (which also decides what \<open>\s\<close> matches and what
  \<open>str.strip\<close> removes) holds for the code points 9 to 13, 28 to 31 and 32; \<open>\d\<close>
  matches \<open>0..9\<close>. Characters above 127 are kept as they are and count neither as
  whitespace nor as digits.
\<close>

definition lower_char :: "char \<Rightarrow> char" where
  "lower_char c =
     (let n = (of_char c :: nat) in if 65 \<le> n \<and> n \<le> 90 then char_of (n + 32) else c)"

definition lower :: "string \<Rightarrow> string" where
  "lower s = map lower_char s"

definition isspace :: "char \<Rightarrow> bool" where
  "isspace c = (let n = (of_char c :: nat) in (9 \<le> n \<and> n \<le> 13) \<or> (28 \<le> n \<and> n \<le> 32))"

definition isdigit :: "char \<Rightarrow> bool" where
  "isdigit c = (let n = (of_char c :: nat) in 48 \<le> n \<and> n \<le> 57)"

definition strip :: "string \<Rightarrow> string" where
  "strip s = rev (dropWhile isspace (rev (dropWhile isspace s)))"

text \<open>The operator \<open>sub in s\<close> on strings: \<open>sub\<close> occurs in \<open>s\<close> as a contiguous block.\<close>

fun str_contains :: "string \<Rightarrow> string \<Rightarrow> bool" where
  "str_contains sub [] = (sub = [])"
| "str_contains sub (c # cs) = (prefix sub (c # cs) \<or> str_contains sub cs)"

section \<open>Data model\<close>

text \<open>
  A row of the creator table, with the columns the ranking reads. \<open>follower_count\<close> is
  an integer column. The three rate columns may hold dirty values: a cell is
  \<open>Some v\<close> when it holds the number \<open>v\<close> and \<open>None\<close> when it is missing or cannot be
  read as a number. Numbers are exact reals: rounding of binary floating point is not
  part of the model.
\<close>

record creator =
  name :: string
  category :: string
  follower_count :: int
  engagement_rate :: "real option"
  average_likes :: "real option"
  average_comments :: "real option"

text \<open>
  A row of the working copy after scoring: the same columns, the three rate columns
  overwritten by their coerced values, and the three derived columns.
\<close>

record scored = creator +
  Follower_Score :: real
  avg_likes_comments :: real
  Score :: real

datatype py_error = AttributeError

section \<open>Query parsing\<close>

text \<open>
  \<open>extract_category_basic\<close> (lines 62 to 67): the loop over \<open>categories\<close> returns the
  first entry, as it is written in the vocabulary, whose lower-cased name occurs in
  the lower-cased query, and \<open>None\<close> when the loop ends.
\<close>

fun extract_category_basic :: "string \<Rightarrow> string list \<Rightarrow> string option" where
  "extract_category_basic query [] = None"
| "extract_category_basic query (cat # categories) =
     (if str_contains (lower cat) (lower query) then Some cat
      else extract_category_basic query categories)"

section \<open>The structured-hint parser\<close>

text \<open>
  Line 93, \<open>re.search(r'\{.*?\}', parsed_text, re.DOTALL)\<close>: the search starts at the
  leftmost opening brace; the lazy \<open>.*?\<close> (which with \<open>DOTALL\<close> matches every character)
  stops at the first closing brace after it. When no closing brace follows the leftmost
  opening brace, none follows any later one, and the search fails.
\<close>

definition find_json_block :: "string \<Rightarrow> string option" where
  "find_json_block text =
     (case dropWhile (\<lambda>c. c \<noteq> CHR ''{'') text of
        [] \<Rightarrow> None
      | b # rest \<Rightarrow>
          if CHR ''}'' \<in> set rest
          then Some (b # takeWhile (\<lambda>c. c \<noteq> CHR ''}'') rest @ ''}'')
          else None)"

text \<open>
  \<open>json.loads\<close> and \<open>eval\<close> belong to the Python library; they are parameters of the
  model. \<open>json_loads s\<close> is \<open>None\<close> when \<open>json.loads\<close> raises. \<open>eval\<close> runs arbitrary
  expressions: it returns a value, raises an \<open>Exception\<close> (caught at line 104), or raises
  something that is not an \<open>Exception\<close>, such as \<open>SystemExit\<close>, which no handler of
  \<open>parse_query_llm\<close> catches.
\<close>

datatype 'v eval_result = Value 'v | Raises_Exception | Raises_BaseException

datatype notice = Key_Missing | Api_Error | Not_JSON | Parsing_Error

text \<open>
  What a call of \<open>parse_query_llm\<close> does: it returns the decoded object, or it shows a
  notice and returns \<open>None\<close>, or an exception leaves the function.
\<close>

datatype 'v llm_outcome = Parsed 'v | Nothing notice | Uncaught

definition replace_quotes :: "string \<Rightarrow> string" where
  "replace_quotes s = map (\<lambda>c. if c = CHR 0x27 then CHR 0x22 else c) s"

text \<open>Lines 96 to 100 and the handler of lines 104 to 106.\<close>

definition decode_block ::
  "(string \<Rightarrow> 'v option) \<Rightarrow> (string \<Rightarrow> 'v eval_result) \<Rightarrow> string \<Rightarrow> 'v llm_outcome" where
  "decode_block json_loads py_eval json_str =
     (case json_loads (replace_quotes json_str) of
        Some parsed \<Rightarrow> Parsed parsed
      | None \<Rightarrow>
          (case py_eval json_str of
             Value parsed \<Rightarrow> Parsed parsed
           | Raises_Exception \<Rightarrow> Nothing Parsing_Error
           | Raises_BaseException \<Rightarrow> Uncaught))"

text \<open>Lines 91 to 103: the text of the first choice is stripped, searched and decoded.\<close>

definition parse_response_text ::
  "(string \<Rightarrow> 'v option) \<Rightarrow> (string \<Rightarrow> 'v eval_result) \<Rightarrow> string \<Rightarrow> 'v llm_outcome" where
  "parse_response_text json_loads py_eval text =
     (case find_json_block (strip text) of
        Some json_str \<Rightarrow> decode_block json_loads py_eval json_str
      | None \<Rightarrow> Nothing Not_JSON)"

text \<open>
  The reply of the completion service to the prompt built from the query: the call
  raises, or the reply has no (or an empty) \<open>choices\<close> entry, or the first choice
  carries a text.
\<close>

datatype api_reply = Call_Raises | No_Choices | First_Text string

definition parse_query_llm ::
  "bool \<Rightarrow> (string \<Rightarrow> api_reply) \<Rightarrow> (string \<Rightarrow> 'v option) \<Rightarrow> (string \<Rightarrow> 'v eval_result)
     \<Rightarrow> string \<Rightarrow> 'v llm_outcome" where
  "parse_query_llm api_key completion json_loads py_eval query =
     (if \<not> api_key then Nothing Key_Missing
      else case completion query of
             Call_Raises \<Rightarrow> Nothing Parsing_Error
           | No_Choices \<Rightarrow> Nothing Api_Error
           | First_Text text \<Rightarrow> parse_response_text json_loads py_eval text)"

section \<open>Ranking\<close>

text \<open>Line 110: rows whose lower-cased category equals the lower-cased request.\<close>

definition filter_category :: "creator list \<Rightarrow> string \<Rightarrow> creator list" where
  "filter_category df cat = filter (\<lambda>r. lower (category r) = lower cat) df"

text \<open>\<open>int(value)\<close> on a run of decimal digits.\<close>

definition int_of_digits :: "string \<Rightarrow> int" where
  "int_of_digits ds = foldl (\<lambda>acc d. 10 * acc + (int (of_char d) - 48)) 0 ds"

text \<open>
  Lines 113 to 116, \<open>re.match(r'([><=])\s*(\d+)', follower_filter)\<close>: the match is
  anchored at the first character of the text, which must be the operator; then any
  whitespace, then the longest run of digits, which must not be empty.
\<close>

definition parse_follower_filter :: "string \<Rightarrow> (char \<times> int) option" where
  "parse_follower_filter text =
     (case text of
        [] \<Rightarrow> None
      | op # rest \<Rightarrow>
          if op = CHR ''>'' \<or> op = CHR ''<'' \<or> op = CHR ''=''
          then (let digits = takeWhile isdigit (dropWhile isspace rest)
                in if digits = [] then None else Some (op, int_of_digits digits))
          else None)"

text \<open>Lines 117 to 122.\<close>

definition apply_follower_op :: "char \<Rightarrow> int \<Rightarrow> creator list \<Rightarrow> creator list" where
  "apply_follower_op op v rows =
     (if op = CHR ''>'' then filter (\<lambda>r. follower_count r > v) rows
      else if op = CHR ''<'' then filter (\<lambda>r. follower_count r < v) rows
      else if op = CHR ''='' then filter (\<lambda>r. follower_count r = v) rows
      else rows)"

text \<open>Lines 112 to 122: \<open>None\<close> and the empty text are both false in \<open>if follower_filter\<close>.\<close>

definition filter_followers :: "string option \<Rightarrow> creator list \<Rightarrow> creator list" where
  "filter_followers follower_filter rows =
     (case follower_filter of
        None \<Rightarrow> rows
      | Some text \<Rightarrow>
          if text = [] then rows
          else (case parse_follower_filter text of
                  None \<Rightarrow> rows
                | Some (op, v) \<Rightarrow> apply_follower_op op v rows))"

text \<open>Line 124: the maximum of the column, undefined (\<open>NaN\<close>) on an empty frame.\<close>

definition max_followers :: "creator list \<Rightarrow> int option" where
  "max_followers rows =
     (case rows of
        [] \<Rightarrow> None
      | r # rs \<Rightarrow> Some (fold max (map follower_count rs) (follower_count r)))"

text \<open>Lines 125 to 128.\<close>

definition follower_score :: "int option \<Rightarrow> int \<Rightarrow> real" where
  "follower_score mx fc =
     (case mx of
        None \<Rightarrow> 0
      | Some m \<Rightarrow> if m > 0 then real_of_int fc / real_of_int m else 0)"

text \<open>Lines 130 to 132: \<open>pd.to_numeric(..., errors='coerce').fillna(0)\<close> on one cell.\<close>

definition to_numeric_fillna :: "real option \<Rightarrow> real" where
  "to_numeric_fillna cell = (case cell of Some v \<Rightarrow> v | None \<Rightarrow> 0)"

text \<open>Lines 126 to 140 on one row.\<close>

definition score_row :: "int option \<Rightarrow> real \<Rightarrow> real \<Rightarrow> real \<Rightarrow> creator \<Rightarrow> scored" where
  "score_row mx w_eng w_fol w_likes r =
     (let fs = follower_score mx (follower_count r);
          eng = to_numeric_fillna (engagement_rate r);
          likes = to_numeric_fillna (average_likes r);
          comments = to_numeric_fillna (average_comments r);
          alc = likes + comments
      in \<lparr> name = name r, category = category r, follower_count = follower_count r,
           engagement_rate = Some eng, average_likes = Some likes,
           average_comments = Some comments,
           Follower_Score = fs, avg_likes_comments = alc,
           Score = eng * w_eng + fs * w_fol + alc * w_likes \<rparr>)"

text \<open>Lines 110 to 122: the rows that survive both filters.\<close>

definition filtered_rows :: "creator list \<Rightarrow> string \<Rightarrow> string option \<Rightarrow> creator list" where
  "filtered_rows df cat follower_filter = filter_followers follower_filter (filter_category df cat)"

text \<open>
  Lines 110 to 140: the scored working copy before it is sorted. The requested
  category is a string or \<open>None\<close>; \<open>category.lower()\<close> on \<open>None\<close> raises
  \<open>AttributeError\<close>.
\<close>

definition score_creators ::
  "creator list \<Rightarrow> string option \<Rightarrow> string option \<Rightarrow> real \<Rightarrow> real \<Rightarrow> real
     \<Rightarrow> py_error + scored list" where
  "score_creators df cat follower_filter w_eng w_fol w_likes =
     (case cat of
        None \<Rightarrow> Inl AttributeError
      | Some c \<Rightarrow>
          (let rows = filtered_rows df c follower_filter
           in Inr (map (score_row (max_followers rows) w_eng w_fol w_likes) rows)))"

text \<open>
  Line 141, \<open>sort_values(by='Score', ascending=False)\<close>. The call names no \<open>kind\<close>, so
  the library's default algorithm (quicksort) is used, which the library documents as
  not stable. What the call guarantees is that the result holds the same rows and is in
  non-increasing order of \<open>Score\<close>; the model is that relation between the frame and
  the sorted frame. It admits more than the library produces: which of the admitted
  orders the library returns on rows of equal score is not modelled.
\<close>

definition sort_values_desc :: "scored list \<Rightarrow> scored list \<Rightarrow> bool" where
  "sort_values_desc rows ranked \<longleftrightarrow>
     mset ranked = mset rows \<and> sorted_wrt (\<lambda>a b. Score a \<ge> Score b) ranked"

text \<open>
  \<open>rank_creators\<close> (lines 109 to 142), as a relation between the arguments and what a
  call may produce: \<open>Inl\<close> an exception, \<open>Inr\<close> the ranked frame.
\<close>

definition rank_creators ::
  "creator list \<Rightarrow> string option \<Rightarrow> string option \<Rightarrow> real \<Rightarrow> real \<Rightarrow> real
     \<Rightarrow> py_error + scored list \<Rightarrow> bool" where
  "rank_creators df cat follower_filter w_eng w_fol w_likes result =
     (case score_creators df cat follower_filter w_eng w_fol w_likes of
        Inl e \<Rightarrow> result = Inl e
      | Inr rows \<Rightarrow>
          (case result of
             Inl e \<Rightarrow> False
           | Inr ranked \<Rightarrow> sort_values_desc rows ranked))"

text \<open>
  Lines 217 and 218 of the main script: an empty text and the text \<open>show all\<close> (in any
  letter case, with surrounding whitespace) become \<open>None\<close> before the call of
  \<open>rank_creators\<close>.
\<close>

definition normalize_follower_filter :: "string \<Rightarrow> string option" where
  "normalize_follower_filter text =
     (if text = [] \<or> lower (strip text) = ''show all'' then None else Some text)"

text \<open>
  A stable descending sort, one of the orders \<open>sort_values_desc\<close> admits: it is used to
  show that every call of \<open>rank_creators\<close> has a result.
\<close>

definition stable_sort_desc :: "scored list \<Rightarrow> scored list" where
  "stable_sort_desc rows = rev (sort_key Score (rev rows))"

text \<open>The two rows of the worked scenario of the specification.\<close>

definition scenario_A :: creator where
  "scenario_A = \<lparr> name = ''A'', category = ''fashion'', follower_count = 20000,
     engagement_rate = Some 5, average_likes = Some 100, average_comments = Some 20 \<rparr>"

definition scenario_B :: creator where
  "scenario_B = \<lparr> name = ''B'', category = ''fashion'', follower_count = 10000,
     engagement_rate = Some 8, average_likes = Some 50, average_comments = Some 10 \<rparr>"

text \<open>The two rows as the scenario expects them after scoring.\<close>

definition ranked_A :: scored where
  "ranked_A = \<lparr> name = ''A'', category = ''fashion'', follower_count = 20000,
     engagement_rate = Some 5, average_likes = Some 100, average_comments = Some 20,
     Follower_Score = 1, avg_likes_comments = 120, Score = 134 / 5 \<rparr>"

definition ranked_B :: scored where
  "ranked_B = \<lparr> name = ''B'', category = ''fashion'', follower_count = 10000,
     engagement_rate = Some 8, average_likes = Some 50, average_comments = Some 10,
     Follower_Score = 1 / 2, avg_likes_comments = 60, Score = 323 / 20 \<rparr>"

section \<open>Properties of the string operations\<close>

lemma str_contains_iff: "str_contains sub s \<longleftrightarrow> (\<exists>ps ss. s = ps @ sub @ ss)"
proof (induction s)
  case Nil
  then show ?case by auto
next
  case (Cons c cs)
  show ?case
  proof
    assume "str_contains sub (c # cs)"
    then consider "prefix sub (c # cs)" | "str_contains sub cs" by auto
    then show "\<exists>ps ss. c # cs = ps @ sub @ ss"
    proof cases
      case 1
      then obtain ss where "c # cs = sub @ ss" by (auto simp: prefix_def)
      then have "c # cs = [] @ sub @ ss" by simp
      then show ?thesis by blast
    next
      case 2
      with Cons.IH obtain ps ss where "cs = ps @ sub @ ss" by blast
      then have "c # cs = (c # ps) @ sub @ ss" by simp
      then show ?thesis by blast
    qed
  next
    assume "\<exists>ps ss. c # cs = ps @ sub @ ss"
    then obtain ps ss where eq: "c # cs = ps @ sub @ ss" by blast
    show "str_contains sub (c # cs)"
    proof (cases ps)
      case Nil
      with eq have "prefix sub (c # cs)" by (simp add: prefix_def)
      then show ?thesis by simp
    next
      case (Cons p ps')
      with eq have "cs = ps' @ sub @ ss" by simp
      with Cons.IH have "str_contains sub cs" by blast
      then show ?thesis by simp
    qed
  qed
qed

lemma extract_category_basic_Some_iff:
  "extract_category_basic query cats = Some c \<longleftrightarrow>
     (\<exists>pre post. cats = pre @ c # post \<and> str_contains (lower c) (lower query)
        \<and> (\<forall>d\<in>set pre. \<not> str_contains (lower d) (lower query)))"
proof (induction cats)
  case Nil
  then show ?case by simp
next
  case (Cons a cats)
  show ?case
  proof (cases "str_contains (lower a) (lower query)")
    case True
    have "a = c \<longleftrightarrow> (\<exists>pre post. a # cats = pre @ c # post \<and> str_contains (lower c) (lower query)
        \<and> (\<forall>d\<in>set pre. \<not> str_contains (lower d) (lower query)))"
    proof
      assume "a = c"
      with True have "a # cats = [] @ c # cats \<and> str_contains (lower c) (lower query)
        \<and> (\<forall>d\<in>set []. \<not> str_contains (lower d) (lower query))" by simp
      then show "\<exists>pre post. a # cats = pre @ c # post \<and> str_contains (lower c) (lower query)
        \<and> (\<forall>d\<in>set pre. \<not> str_contains (lower d) (lower query))" by blast
    next
      assume "\<exists>pre post. a # cats = pre @ c # post \<and> str_contains (lower c) (lower query)
        \<and> (\<forall>d\<in>set pre. \<not> str_contains (lower d) (lower query))"
      then obtain pre post where eq: "a # cats = pre @ c # post"
        and no: "\<forall>d\<in>set pre. \<not> str_contains (lower d) (lower query)" by blast
      show "a = c"
      proof (cases pre)
        case Nil
        with eq show ?thesis by simp
      next
        case (Cons p pre')
        with eq have "p = a" by simp
        with Cons no True show ?thesis by simp
      qed
    qed
    with True show ?thesis by simp
  next
    case False
    have "(\<exists>pre post. cats = pre @ c # post \<and> str_contains (lower c) (lower query)
        \<and> (\<forall>d\<in>set pre. \<not> str_contains (lower d) (lower query))) \<longleftrightarrow>
      (\<exists>pre post. a # cats = pre @ c # post \<and> str_contains (lower c) (lower query)
        \<and> (\<forall>d\<in>set pre. \<not> str_contains (lower d) (lower query)))" (is "?L \<longleftrightarrow> ?R")
    proof
      assume ?L
      then obtain pre post where "cats = pre @ c # post" "str_contains (lower c) (lower query)"
        "\<forall>d\<in>set pre. \<not> str_contains (lower d) (lower query)" by blast
      with False have "a # cats = (a # pre) @ c # post \<and> str_contains (lower c) (lower query)
        \<and> (\<forall>d\<in>set (a # pre). \<not> str_contains (lower d) (lower query))" by simp
      then show ?R by blast
    next
      assume ?R
      then obtain pre post where eq: "a # cats = pre @ c # post"
        and c: "str_contains (lower c) (lower query)"
        and no: "\<forall>d\<in>set pre. \<not> str_contains (lower d) (lower query)" by blast
      show ?L
      proof (cases pre)
        case Nil
        with eq c False show ?thesis by simp
      next
        case (Cons p pre')
        with eq no have "cats = pre' @ c # post" "\<forall>d\<in>set pre'. \<not> str_contains (lower d) (lower query)"
          by simp_all
        with c show ?thesis by blast
      qed
    qed
    with False Cons.IH show ?thesis by simp
  qed
qed

lemma extract_category_basic_None_iff:
  "extract_category_basic query cats = None \<longleftrightarrow>
     (\<forall>d\<in>set cats. \<not> str_contains (lower d) (lower query))"
  by (induction cats) auto

subsection \<open>The category resolver\<close>

text \<open>
  Claim C6. For every query and every category vocabulary, \<open>extract_category_basic\<close>
  returns the first category, in the order of the vocabulary, whose lower-cased name
  occurs as a contiguous block of the lower-cased query; it returns \<open>None\<close> exactly
  when no category name occurs so; hence a category is returned whenever some known
  category name occurs in the query, whatever the letter case.
\<close>

theorem extract_category_basic_first_match:
  "(extract_category_basic query cats = Some c \<longleftrightarrow>
      (\<exists>pre post. cats = pre @ c # post
          \<and> (\<exists>ps ss. lower query = ps @ lower c @ ss)
          \<and> (\<forall>d\<in>set pre. \<not> (\<exists>ps ss. lower query = ps @ lower d @ ss))))
   \<and> (extract_category_basic query cats = None \<longleftrightarrow>
      (\<forall>d\<in>set cats. \<not> (\<exists>ps ss. lower query = ps @ lower d @ ss)))
   \<and> ((\<exists>d\<in>set cats. \<exists>ps ss. lower query = ps @ lower d @ ss) \<longrightarrow>
      (\<exists>c'. extract_category_basic query cats = Some c'))"
proof -
  have none: "extract_category_basic query cats = None \<longleftrightarrow>
      (\<forall>d\<in>set cats. \<not> (\<exists>ps ss. lower query = ps @ lower d @ ss))"
    by (simp only: extract_category_basic_None_iff str_contains_iff)
  have some: "extract_category_basic query cats = Some c \<longleftrightarrow>
      (\<exists>pre post. cats = pre @ c # post
          \<and> (\<exists>ps ss. lower query = ps @ lower c @ ss)
          \<and> (\<forall>d\<in>set pre. \<not> (\<exists>ps ss. lower query = ps @ lower d @ ss)))"
    by (simp only: extract_category_basic_Some_iff str_contains_iff)
  have ex: "(\<exists>d\<in>set cats. \<exists>ps ss. lower query = ps @ lower d @ ss) \<longrightarrow>
      (\<exists>c'. extract_category_basic query cats = Some c')"
    using none by (cases "extract_category_basic query cats") auto
  from some none ex show ?thesis by blast
qed

theorem extract_category_basic_first_match_witness:
  "extract_category_basic ''Top Fashion creators'' [''tech'', ''fashion'', ''Fash''] = Some ''fashion''
   \<and> extract_category_basic ''Top Fashion creators'' [''tech'', ''beauty''] = None"
proof -
  have occ: "\<exists>ps ss. lower ''Top Fashion creators'' = ps @ lower ''fashion'' @ ss"
    unfolding str_contains_iff [symmetric] by code_simp
  have no1: "\<forall>d\<in>set [''tech'']. \<not> (\<exists>ps ss. lower ''Top Fashion creators'' = ps @ lower d @ ss)"
    unfolding str_contains_iff [symmetric] by code_simp
  have no2: "\<forall>d\<in>set [''tech'', ''beauty'']. \<not> (\<exists>ps ss. lower ''Top Fashion creators'' = ps @ lower d @ ss)"
    unfolding str_contains_iff [symmetric] by code_simp
  have dec: "[''tech'', ''fashion'', ''Fash''] = [''tech''] @ ''fashion'' # [''Fash'']" by simp
  from occ no1 dec have "\<exists>pre post. [''tech'', ''fashion'', ''Fash''] = pre @ ''fashion'' # post
          \<and> (\<exists>ps ss. lower ''Top Fashion creators'' = ps @ lower ''fashion'' @ ss)
          \<and> (\<forall>d\<in>set pre. \<not> (\<exists>ps ss. lower ''Top Fashion creators'' = ps @ lower d @ ss))"
    by blast
  with no2 extract_category_basic_first_match [of "''Top Fashion creators''" "[''tech'', ''fashion'', ''Fash'']" "''fashion''"]
    extract_category_basic_first_match [of "''Top Fashion creators''" "[''tech'', ''beauty'']" "''x''"]
  show ?thesis by blast
qed

subsection \<open>The comparison parser\<close>

lemma isdigit_not_isspace: "isdigit c \<Longrightarrow> \<not> isspace c"
  by (auto simp: isdigit_def isspace_def Let_def)

lemma int_of_digits_snoc:
  "int_of_digits (ds @ [d]) = 10 * int_of_digits ds + (int (of_char d) - 48)"
  by (simp add: int_of_digits_def)

lemma int_of_digits_positional:
  "int_of_digits ds =
     (\<Sum>i<length ds. (int (of_char (ds ! i)) - 48) * 10 ^ (length ds - Suc i))"
proof (induction ds rule: rev_induct)
  case Nil
  then show ?case by (simp add: int_of_digits_def)
next
  case (snoc d ds)
  have "(\<Sum>i<length ds. (int (of_char ((ds @ [d]) ! i)) - 48) * 10 ^ (length (ds @ [d]) - Suc i))
      = (\<Sum>i<length ds. 10 * ((int (of_char (ds ! i)) - 48) * 10 ^ (length ds - Suc i)))"
  proof (rule sum.cong)
    fix i assume "i \<in> {..<length ds}"
    then have i: "i < length ds" by simp
    then have "length (ds @ [d]) - Suc i = Suc (length ds - Suc i)" by simp
    with i show "(int (of_char ((ds @ [d]) ! i)) - 48) * 10 ^ (length (ds @ [d]) - Suc i)
      = 10 * ((int (of_char (ds ! i)) - 48) * 10 ^ (length ds - Suc i))"
      by (simp add: nth_append)
  qed simp
  also have "\<dots> = 10 * int_of_digits ds"
    by (simp add: snoc.IH sum_distrib_left)
  finally show ?case
    by (simp add: int_of_digits_snoc)
qed

lemma parse_follower_filter_accepts:
  assumes op: "op = CHR ''>'' \<or> op = CHR ''<'' \<or> op = CHR ''=''"
    and ws: "\<forall>c\<in>set ws. isspace c"
    and ds: "ds \<noteq> []" "\<forall>c\<in>set ds. isdigit c"
  shows "parse_follower_filter (op # ws @ ds @ rest) =
           Some (op, int_of_digits (ds @ takeWhile isdigit rest))"
proof -
  from ds obtain d ds' where dd: "ds = d # ds'" "isdigit d" by (cases ds) auto
  have "dropWhile isspace (ws @ ds @ rest) = dropWhile isspace (ds @ rest)"
    using ws by (simp add: dropWhile_append2)
  also have "\<dots> = ds @ rest"
    using dd by (simp add: isdigit_not_isspace)
  finally have drop: "dropWhile isspace (ws @ ds @ rest) = ds @ rest" .
  have take: "takeWhile isdigit (ds @ rest) = ds @ takeWhile isdigit rest"
    using ds(2) by (simp add: takeWhile_append2)
  from dd have ne: "ds @ takeWhile isdigit rest \<noteq> []" by simp
  show ?thesis
    using op ne by (auto simp add: parse_follower_filter_def drop take Let_def)
qed

lemma parse_follower_filter_Some_shape:
  assumes "parse_follower_filter text = Some (op, v)"
  shows "\<exists>ws ds rest. text = op # ws @ ds @ rest
           \<and> (op = CHR ''>'' \<or> op = CHR ''<'' \<or> op = CHR ''='')
           \<and> (\<forall>c\<in>set ws. isspace c) \<and> ds \<noteq> [] \<and> (\<forall>c\<in>set ds. isdigit c)
           \<and> v = int_of_digits ds"
proof -
  from assms obtain rest0 where t: "text = op # rest0"
    and op: "op = CHR ''>'' \<or> op = CHR ''<'' \<or> op = CHR ''=''"
    and ne: "takeWhile isdigit (dropWhile isspace rest0) \<noteq> []"
    and v: "v = int_of_digits (takeWhile isdigit (dropWhile isspace rest0))"
    by (auto simp: parse_follower_filter_def Let_def split: list.splits if_splits)
  let ?ws = "takeWhile isspace rest0"
  let ?ds = "takeWhile isdigit (dropWhile isspace rest0)"
  let ?rest = "dropWhile isdigit (dropWhile isspace rest0)"
  have "rest0 = ?ws @ ?ds @ ?rest" by simp
  with t have "text = op # ?ws @ ?ds @ ?rest" by simp
  moreover have "\<forall>c\<in>set ?ws. isspace c" by (auto dest: set_takeWhileD)
  moreover have "\<forall>c\<in>set ?ds. isdigit c" by (auto dest: set_takeWhileD)
  ultimately show ?thesis using op ne v by blast
qed

text \<open>
  Claim C5, as the specification states it, fails: the match is anchored at the first
  character of the text, so a text with whitespace before the operator is rejected.
\<close>

theorem parse_follower_filter_leading_space_counterexample:
  "parse_follower_filter '' >10000'' = None
   \<and> parse_follower_filter '' >10000'' \<noteq> Some (CHR ''>'', 10000)"
  by (simp add: parse_follower_filter_def)

text \<open>
  Claim C5, amended. Every text that begins with one of the operators, followed by
  optional whitespace, one or more digits and arbitrary trailing text, is accepted, and
  the result is the operator with the integer value of the longest run of digits at
  that place. A text is rejected exactly when it is not of this shape; leading
  whitespace before the operator is not part of the shape.
\<close>

theorem parse_follower_filter_anchored:
  "((op = CHR ''>'' \<or> op = CHR ''<'' \<or> op = CHR ''='') \<and> (\<forall>c\<in>set ws. isspace c)
      \<and> ds \<noteq> [] \<and> (\<forall>c\<in>set ds. isdigit c) \<longrightarrow>
      parse_follower_filter (op # ws @ ds @ rest) =
        Some (op, int_of_digits (ds @ takeWhile isdigit rest)))
   \<and> (parse_follower_filter text = None \<longleftrightarrow>
        \<not> (\<exists>op' ws' ds' rest'. text = op' # ws' @ ds' @ rest'
             \<and> (op' = CHR ''>'' \<or> op' = CHR ''<'' \<or> op' = CHR ''='')
             \<and> (\<forall>c\<in>set ws'. isspace c) \<and> ds' \<noteq> [] \<and> (\<forall>c\<in>set ds'. isdigit c)))
   \<and> int_of_digits ds =
        (\<Sum>i<length ds. (int (of_char (ds ! i)) - 48) * 10 ^ (length ds - Suc i))"
proof (intro conjI impI)
  assume "(op = CHR ''>'' \<or> op = CHR ''<'' \<or> op = CHR ''='') \<and> (\<forall>c\<in>set ws. isspace c)
      \<and> ds \<noteq> [] \<and> (\<forall>c\<in>set ds. isdigit c)"
  then show "parse_follower_filter (op # ws @ ds @ rest) =
        Some (op, int_of_digits (ds @ takeWhile isdigit rest))"
    by (simp add: parse_follower_filter_accepts)
next
  show "parse_follower_filter text = None \<longleftrightarrow>
        \<not> (\<exists>op' ws' ds' rest'. text = op' # ws' @ ds' @ rest'
             \<and> (op' = CHR ''>'' \<or> op' = CHR ''<'' \<or> op' = CHR ''='')
             \<and> (\<forall>c\<in>set ws'. isspace c) \<and> ds' \<noteq> [] \<and> (\<forall>c\<in>set ds'. isdigit c))"
  proof
    assume none: "parse_follower_filter text = None"
    show "\<not> (\<exists>op' ws' ds' rest'. text = op' # ws' @ ds' @ rest'
             \<and> (op' = CHR ''>'' \<or> op' = CHR ''<'' \<or> op' = CHR ''='')
             \<and> (\<forall>c\<in>set ws'. isspace c) \<and> ds' \<noteq> [] \<and> (\<forall>c\<in>set ds'. isdigit c))"
    proof
      assume "\<exists>op' ws' ds' rest'. text = op' # ws' @ ds' @ rest'
             \<and> (op' = CHR ''>'' \<or> op' = CHR ''<'' \<or> op' = CHR ''='')
             \<and> (\<forall>c\<in>set ws'. isspace c) \<and> ds' \<noteq> [] \<and> (\<forall>c\<in>set ds'. isdigit c)"
      then obtain op' ws' ds' rest' where "text = op' # ws' @ ds' @ rest'"
        "op' = CHR ''>'' \<or> op' = CHR ''<'' \<or> op' = CHR ''=''"
        "\<forall>c\<in>set ws'. isspace c" "ds' \<noteq> []" "\<forall>c\<in>set ds'. isdigit c" by blast
      then have "parse_follower_filter text \<noteq> None"
        by (simp add: parse_follower_filter_accepts)
      with none show False by simp
    qed
  next
    assume no: "\<not> (\<exists>op' ws' ds' rest'. text = op' # ws' @ ds' @ rest'
             \<and> (op' = CHR ''>'' \<or> op' = CHR ''<'' \<or> op' = CHR ''='')
             \<and> (\<forall>c\<in>set ws'. isspace c) \<and> ds' \<noteq> [] \<and> (\<forall>c\<in>set ds'. isdigit c))"
    show "parse_follower_filter text = None"
    proof (cases "parse_follower_filter text")
      case None
      then show ?thesis .
    next
      case (Some p)
      obtain op' v where "p = (op', v)" by (cases p)
      with Some have "parse_follower_filter text = Some (op', v)" by simp
      from parse_follower_filter_Some_shape [OF this] no show ?thesis by blast
    qed
  qed
next
  show "int_of_digits ds =
        (\<Sum>i<length ds. (int (of_char (ds ! i)) - 48) * 10 ^ (length ds - Suc i))"
    by (rule int_of_digits_positional)
qed

theorem parse_follower_filter_anchored_witness:
  "parse_follower_filter ''>  10000 followers'' = Some (CHR ''>'', 10000)
   \<and> parse_follower_filter ''=42'' = Some (CHR ''='', 42)"
proof -
  have h1: "(CHR ''>'' = CHR ''>'' \<or> CHR ''>'' = CHR ''<'' \<or> CHR ''>'' = CHR ''='')
      \<and> (\<forall>c\<in>set ''  ''. isspace c) \<and> ''10000'' \<noteq> [] \<and> (\<forall>c\<in>set ''10000''. isdigit c)"
    by (simp add: isspace_def isdigit_def)
  have h2: "(CHR ''='' = CHR ''>'' \<or> CHR ''='' = CHR ''<'' \<or> CHR ''='' = CHR ''='')
      \<and> (\<forall>c\<in>set ''''. isspace c) \<and> ''42'' \<noteq> [] \<and> (\<forall>c\<in>set ''42''. isdigit c)"
    by (simp add: isspace_def isdigit_def)
  have v1: "int_of_digits (''10000'' @ takeWhile isdigit '' followers'') = 10000"
    by (simp add: int_of_digits_def isdigit_def)
  have v2: "int_of_digits (''42'' @ takeWhile isdigit '''') = 42"
    by (simp add: int_of_digits_def isdigit_def)
  from h1 v1 parse_follower_filter_anchored [of "CHR ''>''" "''  ''" "''10000''" "'' followers''" "''''"]
  have "parse_follower_filter ''>  10000 followers'' = Some (CHR ''>'', 10000)" by simp
  moreover from h2 v2 parse_follower_filter_anchored [of "CHR ''=''" "''''" "''42''" "''''" "''''"]
  have "parse_follower_filter ''=42'' = Some (CHR ''='', 42)" by simp
  ultimately show ?thesis by simp
qed

subsection \<open>Columns of a scored row, the maximum, and the sort\<close>

lemma score_row_columns:
  "name (score_row mx w_eng w_fol w_likes r) = name r"
  "category (score_row mx w_eng w_fol w_likes r) = category r"
  "follower_count (score_row mx w_eng w_fol w_likes r) = follower_count r"
  "Follower_Score (score_row mx w_eng w_fol w_likes r) = follower_score mx (follower_count r)"
  "avg_likes_comments (score_row mx w_eng w_fol w_likes r) =
     to_numeric_fillna (average_likes r) + to_numeric_fillna (average_comments r)"
  "Score (score_row mx w_eng w_fol w_likes r) =
     to_numeric_fillna (engagement_rate r) * w_eng + follower_score mx (follower_count r) * w_fol
       + (to_numeric_fillna (average_likes r) + to_numeric_fillna (average_comments r)) * w_likes"
  by (simp_all add: score_row_def Let_def)

lemma max_followers_eq:
  "max_followers rows = (if rows = [] then None else Some (Max (follower_count ` set rows)))"
proof (cases rows)
  case Nil
  then show ?thesis by (simp add: max_followers_def)
next
  case (Cons r rs)
  have "fold max (map follower_count rs) (follower_count r)
          = Max (set (follower_count r # map follower_count rs))"
    by (simp only: Max.set_eq_fold)
  with Cons show ?thesis by (simp add: max_followers_def)
qed

lemma sort_values_desc_stable_sort: "sort_values_desc rows (stable_sort_desc rows)"
proof -
  have "sorted (map Score (sort_key Score (rev rows)))" by (rule sorted_sort_key)
  then have "sorted_wrt (\<lambda>a b. Score a \<le> Score b) (sort_key Score (rev rows))"
    by (simp add: sorted_map)
  then have "sorted_wrt (\<lambda>a b. Score b \<le> Score a) (rev (sort_key Score (rev rows)))"
    by (simp add: sorted_wrt_rev)
  then show ?thesis by (simp add: sort_values_desc_def stable_sort_desc_def)
qed

lemma rank_creators_Some_iff:
  "rank_creators df (Some c) ff w_eng w_fol w_likes result \<longleftrightarrow>
     (\<exists>ranked. result = Inr ranked \<and>
        sort_values_desc
          (map (score_row (max_followers (filtered_rows df c ff)) w_eng w_fol w_likes)
               (filtered_rows df c ff)) ranked)"
  by (cases result) (simp_all add: rank_creators_def score_creators_def Let_def)

lemma rank_creators_None_iff:
  "rank_creators df None ff w_eng w_fol w_likes result \<longleftrightarrow> result = Inl AttributeError"
  by (simp add: rank_creators_def score_creators_def)

lemma rank_creators_total:
  "rank_creators df (Some c) ff w_eng w_fol w_likes
     (Inr (stable_sort_desc
        (map (score_row (max_followers (filtered_rows df c ff)) w_eng w_fol w_likes)
             (filtered_rows df c ff))))"
  by (simp add: rank_creators_Some_iff sort_values_desc_stable_sort)

lemma sort_values_desc_set: "sort_values_desc rows ranked \<Longrightarrow> set ranked = set rows"
  by (auto simp: sort_values_desc_def dest: mset_eq_setD)

lemma sort_values_desc_Nil: "sort_values_desc [] ranked \<longleftrightarrow> ranked = []"
  by (auto simp: sort_values_desc_def)

subsection \<open>The numeric filter\<close>

lemma filtered_rows_gt_10000:
  "filtered_rows df c (Some ''>10000'') = filter (\<lambda>r. follower_count r > 10000) (filter_category df c)"
proof -
  have "parse_follower_filter ''>10000'' = Some (CHR ''>'', 10000)"
    by (simp add: parse_follower_filter_def isspace_def isdigit_def int_of_digits_def)
  then show ?thesis
    by (simp add: filtered_rows_def filter_followers_def apply_follower_op_def)
qed

text \<open>
  Claim C4. For each of the three operators the numeric filter keeps exactly the rows
  whose \<open>follower_count\<close> stands in that relation to the value, in their order. With
  the filter \<open>('>', 10000)\<close> every kept row has more than 10000 followers and no
  dropped row has; the same holds of the rows \<open>rank_creators\<close> returns for the filter
  text \<open>>10000\<close>.
\<close>

theorem apply_follower_op_exact:
  "(r \<in> set (apply_follower_op (CHR ''>'') v rows) \<longleftrightarrow> r \<in> set rows \<and> follower_count r > v)
   \<and> (r \<in> set (apply_follower_op (CHR ''<'') v rows) \<longleftrightarrow> r \<in> set rows \<and> follower_count r < v)
   \<and> (r \<in> set (apply_follower_op (CHR ''='') v rows) \<longleftrightarrow> r \<in> set rows \<and> follower_count r = v)
   \<and> (apply_follower_op (CHR ''>'') v rows = filter (\<lambda>x. follower_count x > v) rows
        \<and> apply_follower_op (CHR ''<'') v rows = filter (\<lambda>x. follower_count x < v) rows
        \<and> apply_follower_op (CHR ''='') v rows = filter (\<lambda>x. follower_count x = v) rows)
   \<and> (\<forall>x\<in>set (apply_follower_op (CHR ''>'') 10000 rows). follower_count x > 10000)
   \<and> (\<forall>x\<in>set rows. x \<notin> set (apply_follower_op (CHR ''>'') 10000 rows) \<longrightarrow>
         \<not> follower_count x > 10000)
   \<and> (rank_creators df (Some c) (Some ''>10000'') w_eng w_fol w_likes (Inr ranked) \<longrightarrow>
        (\<forall>s\<in>set ranked. follower_count s > 10000)
        \<and> (\<forall>x\<in>set (filter_category df c). follower_count x > 10000 \<longrightarrow>
              (\<exists>s\<in>set ranked. name s = name x \<and> follower_count s = follower_count x)))"
proof -
  have a: "(r \<in> set (apply_follower_op (CHR ''>'') v rows) \<longleftrightarrow> r \<in> set rows \<and> follower_count r > v)"
    by (simp add: apply_follower_op_def)
  have b: "(r \<in> set (apply_follower_op (CHR ''<'') v rows) \<longleftrightarrow> r \<in> set rows \<and> follower_count r < v)"
    by (simp add: apply_follower_op_def)
  have c: "(r \<in> set (apply_follower_op (CHR ''='') v rows) \<longleftrightarrow> r \<in> set rows \<and> follower_count r = v)"
    by (simp add: apply_follower_op_def)
  have d: "apply_follower_op (CHR ''>'') v rows = filter (\<lambda>x. follower_count x > v) rows
        \<and> apply_follower_op (CHR ''<'') v rows = filter (\<lambda>x. follower_count x < v) rows
        \<and> apply_follower_op (CHR ''='') v rows = filter (\<lambda>x. follower_count x = v) rows"
    by (simp add: apply_follower_op_def)
  have e: "\<forall>x\<in>set (apply_follower_op (CHR ''>'') 10000 rows). follower_count x > 10000"
    by (simp add: apply_follower_op_def)
  have f: "\<forall>x\<in>set rows. x \<notin> set (apply_follower_op (CHR ''>'') 10000 rows) \<longrightarrow>
         \<not> follower_count x > 10000"
    by (simp add: apply_follower_op_def)
  have g: "rank_creators df (Some c) (Some ''>10000'') w_eng w_fol w_likes (Inr ranked) \<longrightarrow>
        (\<forall>s\<in>set ranked. follower_count s > 10000)
        \<and> (\<forall>x\<in>set (filter_category df c). follower_count x > 10000 \<longrightarrow>
              (\<exists>s\<in>set ranked. name s = name x \<and> follower_count s = follower_count x))"
  proof
    assume "rank_creators df (Some c) (Some ''>10000'') w_eng w_fol w_likes (Inr ranked)"
    then have "sort_values_desc
          (map (score_row (max_followers (filtered_rows df c (Some ''>10000''))) w_eng w_fol w_likes)
               (filtered_rows df c (Some ''>10000''))) ranked"
      by (simp add: rank_creators_Some_iff)
    then have s: "set ranked =
        score_row (max_followers (filtered_rows df c (Some ''>10000''))) w_eng w_fol w_likes `
          {x \<in> set (filter_category df c). follower_count x > 10000}"
      by (simp add: sort_values_desc_set filtered_rows_gt_10000)
    show "(\<forall>s\<in>set ranked. follower_count s > 10000)
        \<and> (\<forall>x\<in>set (filter_category df c). follower_count x > 10000 \<longrightarrow>
              (\<exists>s\<in>set ranked. name s = name x \<and> follower_count s = follower_count x))"
      unfolding s by (auto simp: score_row_columns)
  qed
  from a b c d e f g show ?thesis by blast
qed

subsection \<open>The worked scenario\<close>

lemmas eval_defs = filtered_rows_def filter_category_def filter_followers_def
  parse_follower_filter_def isspace_def isdigit_def int_of_digits_def apply_follower_op_def
  lower_def lower_char_def max_followers_def score_row_def follower_score_def
  to_numeric_fillna_def scenario_A_def scenario_B_def ranked_A_def ranked_B_def

lemma scenario_rows:
  "filtered_rows [scenario_A, scenario_B] ''fashion'' (Some ''>5000'') = [scenario_A, scenario_B]"
  by (simp add: eval_defs)

lemma scenario_scored:
  "score_row (max_followers [scenario_A, scenario_B]) (1/2) (3/10) (1/5) scenario_A = ranked_A"
  "score_row (max_followers [scenario_A, scenario_B]) (1/2) (3/10) (1/5) scenario_B = ranked_B"
  by (simp_all add: eval_defs)

lemma scenario_rank_iff:
  "rank_creators [scenario_A, scenario_B] (Some ''fashion'') (Some ''>5000'') (1/2) (3/10) (1/5) result
     \<longleftrightarrow> (\<exists>ranked. result = Inr ranked \<and> sort_values_desc [ranked_A, ranked_B] ranked)"
  by (simp add: rank_creators_Some_iff scenario_rows scenario_scored)

lemma sort_values_desc_two:
  "sort_values_desc [a, b] ranked \<longleftrightarrow>
     (ranked = [a, b] \<and> Score b \<le> Score a) \<or> (ranked = [b, a] \<and> Score a \<le> Score b)"
proof
  assume h: "sort_values_desc [a, b] ranked"
  then have m: "mset ranked = {#a, b#}" and s: "sorted_wrt (\<lambda>x y. Score y \<le> Score x) ranked"
    by (simp_all add: sort_values_desc_def)
  from m have "size (mset ranked) = 2" by simp
  then have "length ranked = Suc (Suc 0)" by simp
  then obtain x y where r: "ranked = [x, y]"
    by (auto simp: length_Suc_conv)
  with m have "(x = a \<and> y = b) \<or> (x = b \<and> y = a)"
    by (auto simp: add_eq_conv_ex)
  with r s show "(ranked = [a, b] \<and> Score b \<le> Score a) \<or> (ranked = [b, a] \<and> Score a \<le> Score b)"
    by auto
next
  assume "(ranked = [a, b] \<and> Score b \<le> Score a) \<or> (ranked = [b, a] \<and> Score a \<le> Score b)"
  then show "sort_values_desc [a, b] ranked"
    by (auto simp: sort_values_desc_def)
qed

text \<open>
  Claim C1, as the specification states it, fails in one number: with the weights
  \<open>(0.5, 0.3, 0.2)\<close> the score of \<open>A\<close> is \<open>5.0 * 0.5 + 1.0 * 0.3 + 120 * 0.2 = 26.8\<close>,
  not \<open>27.3\<close>. The frame holding \<open>A\<close> with the score \<open>27.3\<close> is not a result of
  the call.
\<close>

theorem scenario_score_counterexample:
  "rank_creators [scenario_A, scenario_B] (Some ''fashion'') (Some ''>5000'') (1/2) (3/10) (1/5)
     (Inr [ranked_A, ranked_B])
   \<and> Score ranked_A = 134 / 5
   \<and> \<not> rank_creators [scenario_A, scenario_B] (Some ''fashion'') (Some ''>5000'') (1/2) (3/10) (1/5)
         (Inr [ranked_A\<lparr>Score := 273 / 10\<rparr>, ranked_B])"
  by (simp add: scenario_rank_iff sort_values_desc_two)
     (simp add: ranked_A_def ranked_B_def)

text \<open>
  Claim C1, amended. On the two rows of the scenario, with the weights
  \<open>(0.5, 0.3, 0.2)\<close>, the category \<open>fashion\<close> and the filter text \<open>>5000\<close>,
  \<open>rank_creators\<close> has exactly one result: both rows, \<open>A\<close> first, with
  \<open>Follower_Score\<close> 1 for \<open>A\<close> and 0.5 for \<open>B\<close>, and with the scores 26.8 for \<open>A\<close>
  and 16.15 for \<open>B\<close>.
\<close>

theorem scenario_ranking:
  "(rank_creators [scenario_A, scenario_B] (Some ''fashion'') (Some ''>5000'') (1/2) (3/10) (1/5) result
      \<longleftrightarrow> result = Inr [ranked_A, ranked_B])
   \<and> name ranked_A = ''A'' \<and> name ranked_B = ''B''
   \<and> Follower_Score ranked_A = 1 \<and> Follower_Score ranked_B = 1 / 2
   \<and> Score ranked_A = 5 * (1/2) + 1 * (3/10) + 120 * (1/5) \<and> Score ranked_A = 268 / 10
   \<and> Score ranked_B = 8 * (1/2) + (1/2) * (3/10) + 60 * (1/5) \<and> Score ranked_B = 1615 / 100"
proof -
  have "Score ranked_B \<le> Score ranked_A" "\<not> Score ranked_A \<le> Score ranked_B"
    by (simp_all add: ranked_A_def ranked_B_def)
  then have "rank_creators [scenario_A, scenario_B] (Some ''fashion'') (Some ''>5000'') (1/2) (3/10) (1/5) result
      \<longleftrightarrow> result = Inr [ranked_A, ranked_B]"
    by (auto simp add: scenario_rank_iff sort_values_desc_two)
  then show ?thesis by (simp add: ranked_A_def ranked_B_def)
qed

theorem scenario_ranking_witness:
  "rank_creators [scenario_A, scenario_B] (Some ''fashion'') (Some ''>5000'') (1/2) (3/10) (1/5)
     (Inr [ranked_A, ranked_B])"
  using scenario_ranking [of "Inr [ranked_A, ranked_B]"] by simp

subsection \<open>Rows without a numeric filter\<close>

lemma filter_followers_Nil: "filter_followers ff [] = []"
  by (auto simp: filter_followers_def apply_follower_op_def split: option.splits)

lemma filter_followers_no_pattern:
  "parse_follower_filter text = None \<Longrightarrow> filter_followers (Some text) rows = rows"
  by (simp add: filter_followers_def)

lemma filtered_rows_normalized:
  assumes "text = [] \<or> lower (strip text) = ''show all'' \<or> parse_follower_filter text = None"
  shows "filtered_rows df c (normalize_follower_filter text) = filter_category df c"
proof (cases "text = [] \<or> lower (strip text) = ''show all''")
  case True
  then have "normalize_follower_filter text = None" by (simp add: normalize_follower_filter_def)
  then show ?thesis by (simp add: filtered_rows_def filter_followers_def)
next
  case False
  with assms have "parse_follower_filter text = None" by blast
  moreover from False have "normalize_follower_filter text = Some text"
    by (simp add: normalize_follower_filter_def)
  ultimately show ?thesis by (simp add: filtered_rows_def filter_followers_no_pattern)
qed

text \<open>
  Claim C7. When the follower-filter text is empty, or is \<open>show all\<close> up to letter
  case and surrounding whitespace, or does not match the comparison pattern, no numeric
  filtering takes place: the rows that reach the scoring are the category-filtered rows,
  the call of \<open>rank_creators\<close> with a category string has a result, and every result
  is a frame (not an exception) holding exactly the scored category-filtered rows.
\<close>

theorem no_numeric_filter:
  assumes "text = [] \<or> lower (strip text) = ''show all'' \<or> parse_follower_filter text = None"
  shows "filtered_rows df c (normalize_follower_filter text) = filter_category df c
     \<and> (\<exists>ranked. rank_creators df (Some c) (normalize_follower_filter text) w_eng w_fol w_likes
           (Inr ranked))
     \<and> (\<forall>result. rank_creators df (Some c) (normalize_follower_filter text) w_eng w_fol w_likes result
           \<longrightarrow> (\<exists>ranked. result = Inr ranked \<and>
                  mset ranked = mset (map (score_row (max_followers (filter_category df c))
                                              w_eng w_fol w_likes) (filter_category df c))))"
proof -
  have rows: "filtered_rows df c (normalize_follower_filter text) = filter_category df c"
    using assms by (rule filtered_rows_normalized)
  have ex: "\<exists>ranked. rank_creators df (Some c) (normalize_follower_filter text) w_eng w_fol w_likes
           (Inr ranked)"
    using rank_creators_total by blast
  have all: "\<forall>result. rank_creators df (Some c) (normalize_follower_filter text) w_eng w_fol w_likes result
           \<longrightarrow> (\<exists>ranked. result = Inr ranked \<and>
                  mset ranked = mset (map (score_row (max_followers (filter_category df c))
                                              w_eng w_fol w_likes) (filter_category df c)))"
    by (auto simp add: rank_creators_Some_iff rows sort_values_desc_def)
  from rows ex all show ?thesis by blast
qed

theorem no_numeric_filter_witness:
  "filtered_rows [scenario_A, scenario_B] ''fashion'' (normalize_follower_filter ''  Show ALL '')
     = filter_category [scenario_A, scenario_B] ''fashion''
   \<and> filtered_rows [scenario_A, scenario_B] ''fashion'' (normalize_follower_filter '''')
     = filter_category [scenario_A, scenario_B] ''fashion''
   \<and> filtered_rows [scenario_A, scenario_B] ''fashion'' (normalize_follower_filter ''over 5000'')
     = filter_category [scenario_A, scenario_B] ''fashion''"
proof -
  have h1: "''  Show ALL '' = [] \<or> lower (strip ''  Show ALL '') = ''show all''
      \<or> parse_follower_filter ''  Show ALL '' = None"
    by code_simp
  have h2: "'''' = [] \<or> lower (strip '''') = ''show all'' \<or> parse_follower_filter '''' = None"
    by simp
  have h3: "''over 5000'' = [] \<or> lower (strip ''over 5000'') = ''show all''
      \<or> parse_follower_filter ''over 5000'' = None"
    by (simp add: parse_follower_filter_def)
  from no_numeric_filter [OF h1] no_numeric_filter [OF h2] no_numeric_filter [OF h3]
  show ?thesis by blast
qed

subsection \<open>The category is mandatory\<close>

lemma lower_Nil_iff: "lower s = [] \<longleftrightarrow> s = []"
  by (simp add: lower_def)

lemma rank_creators_no_rows:
  "filter_category df c = [] \<Longrightarrow>
     rank_creators df (Some c) ff w_eng w_fol w_likes result \<longleftrightarrow> result = Inr []"
  by (auto simp add: rank_creators_Some_iff filtered_rows_def filter_followers_Nil
      sort_values_desc_Nil)

text \<open>
  Claim C8, as the specification states it, fails: with the category unset (\<open>None\<close>)
  line 110 evaluates \<open>category.lower()\<close>, which raises \<open>AttributeError\<close>; the call
  does not return the empty frame.
\<close>

theorem rank_creators_unset_category_counterexample:
  "rank_creators [scenario_A] None None (1/2) (3/10) (1/5) (Inl AttributeError)
   \<and> \<not> rank_creators [scenario_A] None None (1/2) (3/10) (1/5) (Inr [])"
  by (simp add: rank_creators_None_iff)

text \<open>
  Claim C8, amended. With the empty string as category, and no row with an empty
  category in the table, \<open>rank_creators\<close> returns the empty frame and raises nothing,
  whatever the weights and the numeric filter; the same holds of every category string
  that matches no row case-insensitively. With the category unset the call raises
  \<open>AttributeError\<close>.
\<close>

theorem rank_creators_empty_category:
  "((\<forall>r\<in>set df. category r \<noteq> []) \<longrightarrow>
      (rank_creators df (Some []) ff w_eng w_fol w_likes result \<longleftrightarrow> result = Inr []))
   \<and> ((\<forall>r\<in>set df. lower (category r) \<noteq> lower c) \<longrightarrow>
      (rank_creators df (Some c) ff w_eng w_fol w_likes result \<longleftrightarrow> result = Inr []))
   \<and> (rank_creators df None ff w_eng w_fol w_likes result \<longleftrightarrow> result = Inl AttributeError)"
proof (intro conjI impI)
  assume "\<forall>r\<in>set df. category r \<noteq> []"
  then have "filter_category df [] = []"
    by (auto simp add: filter_category_def filter_empty_conv lower_def)
  then show "rank_creators df (Some []) ff w_eng w_fol w_likes result \<longleftrightarrow> result = Inr []"
    by (rule rank_creators_no_rows)
next
  assume "\<forall>r\<in>set df. lower (category r) \<noteq> lower c"
  then have "filter_category df c = []"
    by (auto simp add: filter_category_def filter_empty_conv)
  then show "rank_creators df (Some c) ff w_eng w_fol w_likes result \<longleftrightarrow> result = Inr []"
    by (rule rank_creators_no_rows)
next
  show "rank_creators df None ff w_eng w_fol w_likes result \<longleftrightarrow> result = Inl AttributeError"
    by (rule rank_creators_None_iff)
qed

theorem rank_creators_empty_category_witness:
  "rank_creators [scenario_A, scenario_B] (Some []) (Some ''>5000'') (1/2) (3/10) (1/5) (Inr [])
   \<and> rank_creators [scenario_A, scenario_B] (Some ''Tech'') None (1/2) (3/10) (1/5) (Inr [])"
proof -
  have h1: "\<forall>r\<in>set [scenario_A, scenario_B]. category r \<noteq> []"
    by (simp add: scenario_A_def scenario_B_def)
  have h2: "\<forall>r\<in>set [scenario_A, scenario_B]. lower (category r) \<noteq> lower ''Tech''"
    by (simp add: scenario_A_def scenario_B_def lower_def)
  from h1 rank_creators_empty_category
    [of "[scenario_A, scenario_B]" "Some ''>5000''" "1/2" "3/10" "1/5" "Inr []" "''x''"]
  have "rank_creators [scenario_A, scenario_B] (Some []) (Some ''>5000'') (1/2) (3/10) (1/5) (Inr [])"
    by blast
  moreover from h2 rank_creators_empty_category
    [of "[scenario_A, scenario_B]" None "1/2" "3/10" "1/5" "Inr []" "''Tech''"]
  have "rank_creators [scenario_A, scenario_B] (Some ''Tech'') None (1/2) (3/10) (1/5) (Inr [])"
    by blast
  ultimately show ?thesis by blast
qed

subsection \<open>The numeric filter on the scenario\<close>

theorem apply_follower_op_exact_witness:
  "scenario_A \<in> set (apply_follower_op (CHR ''>'') 10000 [scenario_A, scenario_B])
   \<and> scenario_B \<notin> set (apply_follower_op (CHR ''>'') 10000 [scenario_A, scenario_B])
   \<and> \<not> follower_count scenario_B > 10000
   \<and> rank_creators [scenario_A, scenario_B] (Some ''fashion'') (Some ''>10000'') (1/2) (3/10) (1/5)
        (Inr [ranked_A])
   \<and> follower_count ranked_A > 10000"
proof -
  have fa: "follower_count scenario_A > 10000" and fb: "\<not> follower_count scenario_B > 10000"
    by (simp_all add: scenario_A_def scenario_B_def)
  have a: "scenario_A \<in> set (apply_follower_op (CHR ''>'') 10000 [scenario_A, scenario_B])"
    using fa apply_follower_op_exact [of scenario_A 10000 "[scenario_A, scenario_B]", THEN conjunct1]
    by simp
  have b: "scenario_B \<notin> set (apply_follower_op (CHR ''>'') 10000 [scenario_A, scenario_B])"
    using fb apply_follower_op_exact [of scenario_B 10000 "[scenario_A, scenario_B]", THEN conjunct1]
    by simp
  have rows: "filtered_rows [scenario_A, scenario_B] ''fashion'' (Some ''>10000'') = [scenario_A]"
    by (simp add: eval_defs)
  have sc: "score_row (max_followers [scenario_A]) (1/2) (3/10) (1/5) scenario_A = ranked_A"
    by (simp add: eval_defs)
  have r: "rank_creators [scenario_A, scenario_B] (Some ''fashion'') (Some ''>10000'') (1/2) (3/10) (1/5)
        (Inr [ranked_A])"
    by (simp add: rank_creators_Some_iff rows sc sort_values_desc_def)
  have c: "\<forall>s\<in>set [ranked_A]. follower_count s > 10000"
    using apply_follower_op_exact [of scenario_A 10000 "[scenario_A, scenario_B]"
        "[scenario_A, scenario_B]" "''fashion''" "1/2" "3/10" "1/5" "[ranked_A]",
        THEN conjunct2, THEN conjunct2, THEN conjunct2, THEN conjunct2, THEN conjunct2,
        THEN conjunct2, rule_format, OF r, THEN conjunct1] .
  from c have c': "follower_count ranked_A > 10000" by simp
  from a b fb r c' show ?thesis by (intro conjI)
qed

subsection \<open>The follower score\<close>

text \<open>
  Claim C3. Let the filtered rows be those that survive both filters. When they are
  not empty and their largest \<open>follower_count\<close> is positive, every row of the result
  has \<open>Follower_Score\<close> equal to its \<open>follower_count\<close> divided by that maximum; the
  score is at most 1, it is at least 0 for a row whose \<open>follower_count\<close> is not
  negative (the data model has no negative counts), it is exactly 1 for every row that
  attains the maximum, and such a row exists. When the filtered rows are empty, or
  their maximum is 0 (or below), every \<open>Follower_Score\<close> is 0.
\<close>

theorem follower_score_normalised:
  assumes "rank_creators df (Some c) ff w_eng w_fol w_likes (Inr ranked)"
  shows "(filtered_rows df c ff \<noteq> [] \<and> 0 < Max (follower_count ` set (filtered_rows df c ff)) \<longrightarrow>
           (\<forall>s\<in>set ranked.
              Follower_Score s = real_of_int (follower_count s)
                                   / real_of_int (Max (follower_count ` set (filtered_rows df c ff)))
              \<and> Follower_Score s \<le> 1
              \<and> (0 \<le> follower_count s \<longrightarrow> 0 \<le> Follower_Score s)
              \<and> (follower_count s = Max (follower_count ` set (filtered_rows df c ff))
                    \<longrightarrow> Follower_Score s = 1))
           \<and> (\<exists>s\<in>set ranked. Follower_Score s = 1))
         \<and> (filtered_rows df c ff = [] \<or> Max (follower_count ` set (filtered_rows df c ff)) \<le> 0 \<longrightarrow>
              (\<forall>s\<in>set ranked. Follower_Score s = 0))"
proof -
  define rows where "rows = filtered_rows df c ff"
  define M where "M = Max (follower_count ` set rows)"
  from assms have sv: "sort_values_desc (map (score_row (max_followers rows) w_eng w_fol w_likes) rows) ranked"
    by (simp add: rank_creators_Some_iff rows_def)
  then have set_ranked: "set ranked = score_row (max_followers rows) w_eng w_fol w_likes ` set rows"
    by (simp add: sort_values_desc_set)
  have pos: "(\<forall>s\<in>set ranked.
              Follower_Score s = real_of_int (follower_count s) / real_of_int M
              \<and> Follower_Score s \<le> 1
              \<and> (0 \<le> follower_count s \<longrightarrow> 0 \<le> Follower_Score s)
              \<and> (follower_count s = M \<longrightarrow> Follower_Score s = 1))
           \<and> (\<exists>s\<in>set ranked. Follower_Score s = 1)"
    if ne: "rows \<noteq> []" and M: "0 < M"
  proof -
    from ne have mx: "max_followers rows = Some M"
      by (simp add: max_followers_eq M_def)
    have fs: "follower_score (max_followers rows) k = real_of_int k / real_of_int M" for k
      using M by (simp add: mx follower_score_def)
    have le: "follower_count r \<le> M" if "r \<in> set rows" for r
      using that by (simp add: M_def)
    have "M \<in> follower_count ` set rows"
      unfolding M_def using ne by (intro Max_in) simp_all
    then obtain r0 where r0: "r0 \<in> set rows" "follower_count r0 = M" by auto
    have all: "\<forall>s\<in>set ranked.
              Follower_Score s = real_of_int (follower_count s) / real_of_int M
              \<and> Follower_Score s \<le> 1
              \<and> (0 \<le> follower_count s \<longrightarrow> 0 \<le> Follower_Score s)
              \<and> (follower_count s = M \<longrightarrow> Follower_Score s = 1)"
    proof
      fix s assume "s \<in> set ranked"
      then obtain r where r: "r \<in> set rows" and s: "s = score_row (max_followers rows) w_eng w_fol w_likes r"
        using set_ranked by auto
      from le [OF r] M have "real_of_int (follower_count r) / real_of_int M \<le> 1" by simp
      moreover from M have "0 \<le> follower_count r \<Longrightarrow> 0 \<le> real_of_int (follower_count r) / real_of_int M"
        by simp
      moreover from M have "follower_count r = M \<Longrightarrow> real_of_int (follower_count r) / real_of_int M = 1"
        by simp
      ultimately show "Follower_Score s = real_of_int (follower_count s) / real_of_int M
              \<and> Follower_Score s \<le> 1
              \<and> (0 \<le> follower_count s \<longrightarrow> 0 \<le> Follower_Score s)
              \<and> (follower_count s = M \<longrightarrow> Follower_Score s = 1)"
        unfolding s by (simp add: fs score_row_columns)
    qed
    from r0 M have "Follower_Score (score_row (max_followers rows) w_eng w_fol w_likes r0) = 1"
      by (simp add: fs score_row_columns)
    with r0(1) set_ranked have "\<exists>s\<in>set ranked. Follower_Score s = 1" by blast
    with all show ?thesis by blast
  qed
  have zero: "\<forall>s\<in>set ranked. Follower_Score s = 0" if "rows = [] \<or> M \<le> 0"
  proof (cases "rows = []")
    case True
    with set_ranked show ?thesis by simp
  next
    case False
    with that have "M \<le> 0" by simp
    moreover from False have "max_followers rows = Some M" by (simp add: max_followers_eq M_def)
    ultimately show ?thesis
      using set_ranked by (auto simp add: score_row_columns follower_score_def)
  qed
  have "(rows \<noteq> [] \<and> 0 < M \<longrightarrow>
           (\<forall>s\<in>set ranked.
              Follower_Score s = real_of_int (follower_count s) / real_of_int M
              \<and> Follower_Score s \<le> 1
              \<and> (0 \<le> follower_count s \<longrightarrow> 0 \<le> Follower_Score s)
              \<and> (follower_count s = M \<longrightarrow> Follower_Score s = 1))
           \<and> (\<exists>s\<in>set ranked. Follower_Score s = 1))
         \<and> (rows = [] \<or> M \<le> 0 \<longrightarrow> (\<forall>s\<in>set ranked. Follower_Score s = 0))"
  proof (intro conjI impI)
    assume "rows \<noteq> [] \<and> 0 < M"
    then have a: "rows \<noteq> []" "0 < M" by simp_all
    from pos [OF a] show "\<forall>s\<in>set ranked.
              Follower_Score s = real_of_int (follower_count s) / real_of_int M
              \<and> Follower_Score s \<le> 1
              \<and> (0 \<le> follower_count s \<longrightarrow> 0 \<le> Follower_Score s)
              \<and> (follower_count s = M \<longrightarrow> Follower_Score s = 1)" by (rule conjunct1)
    from pos [OF a] show "\<exists>s\<in>set ranked. Follower_Score s = 1" by (rule conjunct2)
  next
    assume "rows = [] \<or> M \<le> 0"
    then show "\<forall>s\<in>set ranked. Follower_Score s = 0" by (rule zero)
  qed
  then show ?thesis unfolding rows_def M_def .
qed

theorem follower_score_normalised_witness:
  "rank_creators [scenario_A, scenario_B] (Some ''fashion'') (Some ''>5000'') (1/2) (3/10) (1/5)
     (Inr [ranked_A, ranked_B])
   \<and> filtered_rows [scenario_A, scenario_B] ''fashion'' (Some ''>5000'') \<noteq> []
   \<and> 0 < Max (follower_count ` set (filtered_rows [scenario_A, scenario_B] ''fashion'' (Some ''>5000'')))
   \<and> Follower_Score ranked_A \<le> 1 \<and> Follower_Score ranked_B \<le> 1
   \<and> (\<exists>s\<in>set [ranked_A, ranked_B]. Follower_Score s = 1)"
proof -
  have r: "rank_creators [scenario_A, scenario_B] (Some ''fashion'') (Some ''>5000'') (1/2) (3/10) (1/5)
     (Inr [ranked_A, ranked_B])"
    by (simp add: scenario_rank_iff sort_values_desc_two) (simp add: ranked_A_def ranked_B_def)
  have ne: "filtered_rows [scenario_A, scenario_B] ''fashion'' (Some ''>5000'') \<noteq> []"
    by (simp add: scenario_rows)
  have mx: "0 < Max (follower_count ` set (filtered_rows [scenario_A, scenario_B] ''fashion'' (Some ''>5000'')))"
    unfolding scenario_rows by (simp add: scenario_A_def scenario_B_def)
  from ne mx have pre: "filtered_rows [scenario_A, scenario_B] ''fashion'' (Some ''>5000'') \<noteq> []
      \<and> 0 < Max (follower_count ` set (filtered_rows [scenario_A, scenario_B] ''fashion'' (Some ''>5000'')))"
    by (rule conjI)
  from follower_score_normalised [OF r, THEN conjunct1, rule_format, OF pre]
  have "(\<forall>s\<in>set [ranked_A, ranked_B]. Follower_Score s \<le> 1)
      \<and> (\<exists>s\<in>set [ranked_A, ranked_B]. Follower_Score s = 1)"
    by (elim conjE) simp
  then have "Follower_Score ranked_A \<le> 1" "Follower_Score ranked_B \<le> 1"
    "\<exists>s\<in>set [ranked_A, ranked_B]. Follower_Score s = 1"
    by simp_all
  with r ne mx show ?thesis by (intro conjI)
qed

subsection \<open>The order of the result\<close>

text \<open>
  What line 141 guarantees whatever algorithm the library sorts with: every call of
  \<open>rank_creators\<close> has a result; every frame it returns is in non-increasing order of
  \<open>Score\<close> and holds exactly the scored rows that survive the two filters, each as
  often as it survives; an exception is raised only when the category is unset. The
  order among rows of equal score is decided inside the library's sorting algorithm,
  which is not part of the source; the relation \<open>sort_values_desc\<close> leaves it open,
  and nothing is proved about it here.
\<close>

lemma rank_creators_sorted:
  "(\<exists>result. rank_creators df cat ff w_eng w_fol w_likes result)
   \<and> (rank_creators df cat ff w_eng w_fol w_likes (Inr ranked) \<longrightarrow>
        (\<forall>i j. i < j \<and> j < length ranked \<longrightarrow> Score (ranked ! j) \<le> Score (ranked ! i))
        \<and> (\<exists>c. cat = Some c \<and>
              mset ranked = mset (map (score_row (max_followers (filtered_rows df c ff))
                                         w_eng w_fol w_likes) (filtered_rows df c ff))))
   \<and> (rank_creators df cat ff w_eng w_fol w_likes (Inl e) \<longrightarrow> cat = None)"
proof -
  have total: "\<exists>result. rank_creators df cat ff w_eng w_fol w_likes result"
  proof (cases cat)
    case None
    then have "rank_creators df cat ff w_eng w_fol w_likes (Inl AttributeError)"
      by (simp add: rank_creators_None_iff)
    then show ?thesis ..
  next
    case (Some c)
    then have "rank_creators df cat ff w_eng w_fol w_likes
       (Inr (stable_sort_desc
          (map (score_row (max_followers (filtered_rows df c ff)) w_eng w_fol w_likes)
               (filtered_rows df c ff))))"
      by (simp add: rank_creators_total)
    then show ?thesis ..
  qed
  have frame: "(\<forall>i j. i < j \<and> j < length ranked \<longrightarrow> Score (ranked ! j) \<le> Score (ranked ! i))
        \<and> (\<exists>c. cat = Some c \<and>
              mset ranked = mset (map (score_row (max_followers (filtered_rows df c ff))
                                         w_eng w_fol w_likes) (filtered_rows df c ff)))"
    if r: "rank_creators df cat ff w_eng w_fol w_likes (Inr ranked)"
  proof -
  from r obtain c where c: "cat = Some c"
    by (cases cat) (simp_all add: rank_creators_None_iff)
  with r have sv: "sort_values_desc
      (map (score_row (max_followers (filtered_rows df c ff)) w_eng w_fol w_likes)
           (filtered_rows df c ff)) ranked"
    by (simp add: rank_creators_Some_iff)
  then have "sorted_wrt (\<lambda>a b. Score b \<le> Score a) ranked"
    by (simp add: sort_values_desc_def)
  then have "\<forall>i j. i < j \<and> j < length ranked \<longrightarrow> Score (ranked ! j) \<le> Score (ranked ! i)"
    by (simp add: sorted_wrt_iff_nth_less)
  moreover from sv have "mset ranked = mset (map (score_row (max_followers (filtered_rows df c ff))
                                         w_eng w_fol w_likes) (filtered_rows df c ff))"
    by (simp add: sort_values_desc_def)
  ultimately show ?thesis
    using c by blast
  qed
  have err: "cat = None" if "rank_creators df cat ff w_eng w_fol w_likes (Inl e)"
    using that by (cases cat) (simp_all add: rank_creators_Some_iff)
  from total frame err show ?thesis by blast
qed

subsection \<open>The first brace-delimited block\<close>

lemma dropWhile_weaker:
  "(\<And>x. P x \<Longrightarrow> Q x) \<Longrightarrow> dropWhile Q (dropWhile P xs) = dropWhile Q xs"
  by (induction xs) auto

lemma isspace_not_brace: "isspace x \<Longrightarrow> x \<noteq> CHR ''{''" "isspace x \<Longrightarrow> x \<noteq> CHR ''}''"
  by (auto simp: isspace_def)

lemma find_json_block_append_plain:
  assumes "CHR ''{'' \<notin> set w" "CHR ''}'' \<notin> set w"
  shows "find_json_block (u @ w) = find_json_block u"
proof (cases "CHR ''{'' \<in> set u")
  case True
  then have d: "dropWhile (\<lambda>c. c \<noteq> CHR ''{'') (u @ w) = dropWhile (\<lambda>c. c \<noteq> CHR ''{'') u @ w"
    by (auto simp: dropWhile_append1)
  from True have "dropWhile (\<lambda>c. c \<noteq> CHR ''{'') u \<noteq> []"
    by (auto simp: dropWhile_eq_Nil_conv)
  then obtain b rest where br: "dropWhile (\<lambda>c. c \<noteq> CHR ''{'') u = b # rest"
    by (cases "dropWhile (\<lambda>c. c \<noteq> CHR ''{'') u") auto
  show ?thesis
  proof (cases "CHR ''}'' \<in> set rest")
    case True
    then have "takeWhile (\<lambda>c. c \<noteq> CHR ''}'') (rest @ w) = takeWhile (\<lambda>c. c \<noteq> CHR ''}'') rest"
      by (auto simp: takeWhile_append1)
    with True show ?thesis by (simp add: find_json_block_def d br)
  next
    case False
    with assms show ?thesis by (simp add: find_json_block_def d br)
  qed
next
  case False
  with assms have e: "dropWhile (\<lambda>c. c \<noteq> CHR ''{'') (u @ w) = []"
    "dropWhile (\<lambda>c. c \<noteq> CHR ''{'') u = []"
    by (auto simp: dropWhile_eq_Nil_conv)
  show ?thesis by (simp only: find_json_block_def e)
qed

lemma find_json_block_strip: "find_json_block (strip text) = find_json_block text"
proof -
  let ?t = "dropWhile isspace text"
  have lead: "find_json_block ?t = find_json_block text"
    by (simp add: find_json_block_def dropWhile_weaker isspace_not_brace)
  let ?w = "rev (takeWhile isspace (rev ?t))"
  have split: "?t = strip text @ ?w"
  proof -
    have "rev (strip text @ ?w) = rev ?t" by (simp add: strip_def)
    then have "strip text @ ?w = ?t" by (simp only: rev_is_rev_conv)
    then show ?thesis by (rule sym)
  qed
  have "\<forall>x\<in>set ?w. isspace x" by (auto dest: set_takeWhileD)
  then have "CHR ''{'' \<notin> set ?w" "CHR ''}'' \<notin> set ?w"
    using isspace_not_brace by blast+
  then have "find_json_block (strip text @ ?w) = find_json_block (strip text)"
    by (rule find_json_block_append_plain)
  with split lead show ?thesis by simp
qed

lemma find_json_block_found:
  assumes "text = pre @ CHR ''{'' # body @ CHR ''}'' # post"
    and "CHR ''{'' \<notin> set pre" and "CHR ''}'' \<notin> set body"
  shows "find_json_block text = Some (CHR ''{'' # body @ ''}'')"
proof -
  have p: "\<And>x. x \<in> set pre \<Longrightarrow> x \<noteq> CHR ''{''" using assms(2) by auto
  have d: "dropWhile (\<lambda>c. c \<noteq> CHR ''{'') text = CHR ''{'' # body @ CHR ''}'' # post"
    unfolding assms(1) by (simp add: dropWhile_append2 [OF p])
  have q: "\<And>x. x \<in> set body \<Longrightarrow> x \<noteq> CHR ''}''" using assms(3) by auto
  have t: "takeWhile (\<lambda>c. c \<noteq> CHR ''}'') (body @ CHR ''}'' # post) = body"
    by (simp add: takeWhile_append2 [OF q])
  show ?thesis by (simp add: find_json_block_def d t)
qed

lemma find_json_block_Some_shape:
  assumes "find_json_block text = Some s"
  shows "\<exists>pre body post. text = pre @ CHR ''{'' # body @ CHR ''}'' # post
           \<and> CHR ''{'' \<notin> set pre \<and> CHR ''}'' \<notin> set body \<and> s = CHR ''{'' # body @ ''}''"
proof -
  let ?pre = "takeWhile (\<lambda>c. c \<noteq> CHR ''{'') text"
  from assms obtain b rest where d: "dropWhile (\<lambda>c. c \<noteq> CHR ''{'') text = b # rest"
    and cl: "CHR ''}'' \<in> set rest"
    and s: "s = b # takeWhile (\<lambda>c. c \<noteq> CHR ''}'') rest @ ''}''"
    by (auto simp: find_json_block_def split: list.splits if_splits)
  let ?body = "takeWhile (\<lambda>c. c \<noteq> CHR ''}'') rest"
  let ?tail = "dropWhile (\<lambda>c. c \<noteq> CHR ''}'') rest"
  from d have b: "b = CHR ''{''"
    using hd_dropWhile [of "\<lambda>c. c \<noteq> CHR ''{''" "text"] by simp
  from cl have "?tail \<noteq> []" by (auto simp: dropWhile_eq_Nil_conv)
  then obtain x post where tl: "?tail = x # post" by (cases ?tail) auto
  then have x: "x = CHR ''}''"
    using hd_dropWhile [of "\<lambda>c. c \<noteq> CHR ''}''" rest] by simp
  have "text = ?pre @ dropWhile (\<lambda>c. c \<noteq> CHR ''{'') text" by simp
  also have "\<dots> = ?pre @ CHR ''{'' # rest" by (simp add: d b)
  also have "rest = ?body @ ?tail" by simp
  finally have "text = ?pre @ CHR ''{'' # ?body @ CHR ''}'' # post"
    by (simp add: tl x)
  moreover have "CHR ''{'' \<notin> set ?pre" by (auto dest: set_takeWhileD)
  moreover have "CHR ''}'' \<notin> set ?body" by (auto dest: set_takeWhileD)
  moreover have "s = CHR ''{'' # ?body @ ''}''" by (simp add: s b)
  ultimately show ?thesis by blast
qed

lemma find_json_block_None_iff:
  "find_json_block text = None \<longleftrightarrow>
     \<not> (\<exists>pre body post. text = pre @ CHR ''{'' # body @ CHR ''}'' # post)"
proof
  assume none: "find_json_block text = None"
  show "\<not> (\<exists>pre body post. text = pre @ CHR ''{'' # body @ CHR ''}'' # post)"
  proof
    assume "\<exists>pre body post. text = pre @ CHR ''{'' # body @ CHR ''}'' # post"
    then obtain pre body post where t: "text = pre @ CHR ''{'' # body @ CHR ''}'' # post" by blast
    let ?X = "CHR ''{'' # body @ CHR ''}'' # post"
    have "\<exists>b rest. dropWhile (\<lambda>c. c \<noteq> CHR ''{'') text = b # rest \<and> CHR ''}'' \<in> set rest"
    proof (cases "CHR ''{'' \<in> set pre")
      case True
      then have "dropWhile (\<lambda>c. c \<noteq> CHR ''{'') text = dropWhile (\<lambda>c. c \<noteq> CHR ''{'') pre @ ?X"
        unfolding t by (auto simp: dropWhile_append1)
      moreover from True have "dropWhile (\<lambda>c. c \<noteq> CHR ''{'') pre \<noteq> []"
        by (auto simp: dropWhile_eq_Nil_conv)
      then obtain b r where "dropWhile (\<lambda>c. c \<noteq> CHR ''{'') pre = b # r"
        by (cases "dropWhile (\<lambda>c. c \<noteq> CHR ''{'') pre") auto
      ultimately have "dropWhile (\<lambda>c. c \<noteq> CHR ''{'') text = b # (r @ ?X)" by simp
      moreover have "CHR ''}'' \<in> set (r @ ?X)" by simp
      ultimately show ?thesis by blast
    next
      case False
      then have p: "\<And>x. x \<in> set pre \<Longrightarrow> x \<noteq> CHR ''{''" by auto
      have "dropWhile (\<lambda>c. c \<noteq> CHR ''{'') text = CHR ''{'' # (body @ CHR ''}'' # post)"
        unfolding t by (simp add: dropWhile_append2 [OF p])
      moreover have "CHR ''}'' \<in> set (body @ CHR ''}'' # post)" by simp
      ultimately show ?thesis by blast
    qed
    then have "find_json_block text \<noteq> None"
      by (auto simp: find_json_block_def)
    with none show False by simp
  qed
next
  assume no: "\<not> (\<exists>pre body post. text = pre @ CHR ''{'' # body @ CHR ''}'' # post)"
  show "find_json_block text = None"
  proof (cases "find_json_block text")
    case None
    then show ?thesis .
  next
    case (Some s)
    from find_json_block_Some_shape [OF this] no show ?thesis by blast
  qed
qed

text \<open>
  Claim C9. For every response text: when the text holds an opening brace with a
  closing brace somewhere after it, the parser takes the block from the first opening
  brace to the next closing brace and decodes exactly that block (strict decoding after
  the quote replacement, then the permissive evaluation); when the text holds no such
  block, the parser shows the notice that the reply is not JSON and returns no hint,
  and no exception leaves the function. Stripping the text does not change the block.
\<close>

theorem parse_response_text_first_block:
  "(text = pre @ CHR ''{'' # body @ CHR ''}'' # post
      \<and> CHR ''{'' \<notin> set pre \<and> CHR ''}'' \<notin> set body \<longrightarrow>
      parse_response_text json_loads py_eval text
        = decode_block json_loads py_eval (CHR ''{'' # body @ ''}''))
   \<and> (\<not> (\<exists>pre' body' post'. text = pre' @ CHR ''{'' # body' @ CHR ''}'' # post') \<longrightarrow>
        parse_response_text json_loads py_eval text = Nothing Not_JSON)
   \<and> (parse_response_text json_loads py_eval text = Nothing Not_JSON
        \<or> (\<exists>pre' body' post'. text = pre' @ CHR ''{'' # body' @ CHR ''}'' # post'
              \<and> CHR ''{'' \<notin> set pre' \<and> CHR ''}'' \<notin> set body'
              \<and> parse_response_text json_loads py_eval text
                  = decode_block json_loads py_eval (CHR ''{'' # body' @ ''}'')))
   \<and> parse_query_llm True (\<lambda>q. First_Text text) json_loads py_eval query
        = parse_response_text json_loads py_eval text"
proof -
  have a: "parse_response_text json_loads py_eval text
        = decode_block json_loads py_eval (CHR ''{'' # body @ ''}'')"
    if "text = pre @ CHR ''{'' # body @ CHR ''}'' # post \<and> CHR ''{'' \<notin> set pre \<and> CHR ''}'' \<notin> set body"
  proof -
    from that have "find_json_block text = Some (CHR ''{'' # body @ ''}'')"
      by (simp add: find_json_block_found)
    then show ?thesis by (simp add: parse_response_text_def find_json_block_strip)
  qed
  have b: "parse_response_text json_loads py_eval text = Nothing Not_JSON"
    if "\<not> (\<exists>pre' body' post'. text = pre' @ CHR ''{'' # body' @ CHR ''}'' # post')"
  proof -
    from that have "find_json_block text = None" by (rule find_json_block_None_iff [THEN iffD2])
    then show ?thesis by (simp add: parse_response_text_def find_json_block_strip)
  qed
  have c: "parse_response_text json_loads py_eval text = Nothing Not_JSON
        \<or> (\<exists>pre' body' post'. text = pre' @ CHR ''{'' # body' @ CHR ''}'' # post'
              \<and> CHR ''{'' \<notin> set pre' \<and> CHR ''}'' \<notin> set body'
              \<and> parse_response_text json_loads py_eval text
                  = decode_block json_loads py_eval (CHR ''{'' # body' @ ''}''))"
  proof (cases "find_json_block text")
    case None
    then show ?thesis by (simp add: parse_response_text_def find_json_block_strip)
  next
    case (Some s)
    from find_json_block_Some_shape [OF Some] obtain pre' body' post' where
      sh: "text = pre' @ CHR ''{'' # body' @ CHR ''}'' # post'" "CHR ''{'' \<notin> set pre'"
        "CHR ''}'' \<notin> set body'" "s = CHR ''{'' # body' @ ''}''" by blast
    from Some sh(4) have "parse_response_text json_loads py_eval text
                  = decode_block json_loads py_eval (CHR ''{'' # body' @ ''}'')"
      by (simp add: parse_response_text_def find_json_block_strip)
    with sh(1-3) show ?thesis by blast
  qed
  have d: "parse_query_llm True (\<lambda>q. First_Text text) json_loads py_eval query
        = parse_response_text json_loads py_eval text"
    by (simp add: parse_query_llm_def)
  from a b c d show ?thesis by blast
qed

theorem parse_response_text_first_block_witness:
  "parse_response_text (\<lambda>s. None) Value '' Here: {a: {b} c} end '' = Parsed ''{a: {b}''
   \<and> parse_response_text (\<lambda>s. None) Value ''no block } here {'' = Nothing Not_JSON"
proof -
  have h1: "'' Here: {a: {b} c} end '' = '' Here: '' @ CHR ''{'' # ''a: {b'' @ CHR ''}'' # '' c} end ''
      \<and> CHR ''{'' \<notin> set '' Here: '' \<and> CHR ''}'' \<notin> set ''a: {b''"
    by simp
  have h2: "\<not> (\<exists>pre' body' post'. ''no block } here {'' = pre' @ CHR ''{'' # body' @ CHR ''}'' # post')"
    unfolding find_json_block_None_iff [symmetric] by (simp add: find_json_block_def)
  have d: "decode_block (\<lambda>s. None) Value (CHR ''{'' # ''a: {b'' @ ''}'') = Parsed ''{a: {b}''"
    by (simp add: decode_block_def)
  note t1 = parse_response_text_first_block [of "'' Here: {a: {b} c} end ''" "'' Here: ''" "''a: {b''"
      "'' c} end ''" "\<lambda>s. None" Value "''q''", THEN conjunct1, rule_format, OF h1]
  note t2 = parse_response_text_first_block [of "''no block } here {''" "''''" "''''" "''''"
      "\<lambda>s. None" Value "''q''", THEN conjunct2, THEN conjunct1, rule_format, OF h2]
  from t1 d have "parse_response_text (\<lambda>s. None) Value '' Here: {a: {b} c} end '' = Parsed ''{a: {b}''"
    by simp
  with t2 show ?thesis by (intro conjI)
qed

end
